theory Spec2Isabelle
  imports Main "HOL-Library.Sublist"
begin

section \<open>Addresses and the free store\<close>

text \<open>
  A pointer (\<^verbatim>\<open>Symbol*\<close>, \<^verbatim>\<open>Variable*\<close>, \<^verbatim>\<open>Term*\<close>, and the node pointers the factories
  return) is an address. The factories never look at what a pointer argument points to, so
  every address, the null pointer included, is a possible argument.
\<close>

type_synonym addr = nat

definition nullptr :: addr where
  "nullptr = 0"

text \<open>The only exception the code can meet: the allocator has no memory left.\<close>

datatype error = bad_alloc

text \<open>
  The free store. Nothing in \<^verbatim>\<open>context.cpp\<close> releases memory, so the allocator is fully
  described by the addresses it is still going to hand out, in the order it hands them out.
  When none is left, an allocation throws.
\<close>

type_synonym heap = "addr list"

definition operator_new :: "heap \<Rightarrow> error + (addr \<times> heap)" where
  "operator_new h = (case h of [] \<Rightarrow> Inl bad_alloc | a # h' \<Rightarrow> Inr (a, h'))"

section \<open>Nodes\<close>

text \<open>
  Modelled from the spec: the node classes \<^verbatim>\<open>Variable_impl\<close>, \<^verbatim>\<open>Abstraction_impl\<close>,
  \<^verbatim>\<open>Application_impl\<close>, \<^verbatim>\<open>Declaration_impl\<close> and \<^verbatim>\<open>Evaluation_impl\<close> and their
  constructors are declared in \<^verbatim>\<open>context.hpp\<close>, which is not among the sources. The spec's data
  model gives their contents: a Variable wraps a reference to a Symbol, an Abstraction holds
  a reference to a Variable and one to a Term (the body), an Application holds references to
  two Terms (left and right), a Declaration holds a reference to a Variable and one to a Term
  (its definition), an Evaluation holds a reference to a Term. Each constructor stores the
  references it is given.
\<close>

record Variable_impl =
  symbol :: addr

record Abstraction_impl =
  variable :: addr
  body :: addr

record Application_impl =
  left :: addr
  right :: addr

record Declaration_impl =
  decl_variable :: addr
  decl_definition :: addr

record Evaluation_impl =
  eval_term :: addr

definition Variable_ctor :: "addr \<Rightarrow> Variable_impl" where
  "Variable_ctor symb = \<lparr>symbol = symb\<rparr>"

definition Abstraction_ctor :: "addr \<times> addr \<Rightarrow> Abstraction_impl" where
  "Abstraction_ctor args = \<lparr>variable = fst args, body = snd args\<rparr>"

definition Application_ctor :: "addr \<times> addr \<Rightarrow> Application_impl" where
  "Application_ctor args = \<lparr>left = fst args, right = snd args\<rparr>"

definition Declaration_ctor :: "addr \<times> addr \<Rightarrow> Declaration_impl" where
  "Declaration_ctor args = \<lparr>decl_variable = fst args, decl_definition = snd args\<rparr>"

definition Evaluation_ctor :: "addr \<Rightarrow> Evaluation_impl" where
  "Evaluation_ctor t = \<lparr>eval_term = t\<rparr>"

section \<open>Node storage\<close>

text \<open>
  Modelled from the spec: the type of the members \<^verbatim>\<open>var\<close>, \<^verbatim>\<open>abs\<close>, \<^verbatim>\<open>app\<close>, \<^verbatim>\<open>decls\<close> and
  \<^verbatim>\<open>evals\<close> is declared in \<^verbatim>\<open>context.hpp\<close>, which is not among the sources; the code only
  shows that it has \<^verbatim>\<open>emplace_back\<close> and \<^verbatim>\<open>back\<close>. The spec asks for a storage structure in
  which appending never relocates an element, and names a node-per-allocation list: every
  element lives in a cell of its own, allocated when the element is appended. A storage is
  the sequence of its cells, each with its address and its element, in the order of
  appending.
\<close>

type_synonym 'a storage = "(addr \<times> 'a) list"

text \<open>
  \<^verbatim>\<open>list.emplace_back(args...)\<close>: allocate one cell and construct the element in it from the
  arguments. The element's constructor, which C++ takes from the container's value type, is
  an explicit parameter. If the allocation throws, the exception leaves the function.
\<close>

definition emplace_back ::
  "('args \<Rightarrow> 'a) \<Rightarrow> 'args \<Rightarrow> heap \<Rightarrow> 'a storage \<Rightarrow> error + (heap \<times> 'a storage)" where
  "emplace_back ctor args h l =
     (case operator_new h of
        Inl e \<Rightarrow> Inl e
      | Inr (a, h') \<Rightarrow> Inr (h', l @ [(a, ctor args)]))"

text \<open>
  \<^verbatim>\<open>&list.back()\<close>: the address of the last element. C++ leaves \<^verbatim>\<open>back\<close> undefined on an
  empty container; the code calls it only on a container it has just appended to
  (lemma \<open>emplace_back_nonempty\<close>).
\<close>

definition back_addr :: "'a storage \<Rightarrow> addr" where
  "back_addr l = fst (last l)"

text \<open>Reading through a pointer into a storage: the element of the cell at that address.\<close>

definition deref :: "'a storage \<Rightarrow> addr \<Rightarrow> 'a option" where
  "deref l p = map_of l p"

section \<open>The factories\<close>

text \<open>
  \<^verbatim>\<open>emplace_node(list, args...)\<close>: append, then return the address of the last element. The
  list is passed by reference; the model returns it, with the free store, beside the
  address.
\<close>

definition emplace_node ::
  "('args \<Rightarrow> 'a) \<Rightarrow> 'args \<Rightarrow> heap \<Rightarrow> 'a storage \<Rightarrow> error + (addr \<times> heap \<times> 'a storage)" where
  "emplace_node ctor args h l =
     (case emplace_back ctor args h l of
        Inl e \<Rightarrow> Inl e
      | Inr (h', l') \<Rightarrow> Inr (back_addr l', h', l'))"

text \<open>
  The Term Arena and the Statement Arena. The member \<^verbatim>\<open>abs\<close> is \<open>abst\<close> here, since \<open>abs\<close> is
  the absolute value in HOL.
\<close>

record term_factory =
  var :: "Variable_impl storage"
  abst :: "Abstraction_impl storage"
  app :: "Application_impl storage"

record stmt_factory =
  decls :: "Declaration_impl storage"
  evals :: "Evaluation_impl storage"

text \<open>
  A member function takes the free store and its arena, and returns the address of the new
  node with the free store and the arena as the call leaves them.
\<close>

definition make_variable ::
  "addr \<Rightarrow> heap \<times> term_factory \<Rightarrow> error + (addr \<times> heap \<times> term_factory)" where
  "make_variable symb s =
     (case emplace_node Variable_ctor symb (fst s) (var (snd s)) of
        Inl e \<Rightarrow> Inl e
      | Inr (p, h', l') \<Rightarrow> Inr (p, h', (snd s)\<lparr>var := l'\<rparr>))"

definition make_abstraction ::
  "addr \<Rightarrow> addr \<Rightarrow> heap \<times> term_factory \<Rightarrow> error + (addr \<times> heap \<times> term_factory)" where
  "make_abstraction v t s =
     (case emplace_node Abstraction_ctor (v, t) (fst s) (abst (snd s)) of
        Inl e \<Rightarrow> Inl e
      | Inr (p, h', l') \<Rightarrow> Inr (p, h', (snd s)\<lparr>abst := l'\<rparr>))"

definition make_application ::
  "addr \<Rightarrow> addr \<Rightarrow> heap \<times> term_factory \<Rightarrow> error + (addr \<times> heap \<times> term_factory)" where
  "make_application l r s =
     (case emplace_node Application_ctor (l, r) (fst s) (app (snd s)) of
        Inl e \<Rightarrow> Inl e
      | Inr (p, h', l') \<Rightarrow> Inr (p, h', (snd s)\<lparr>app := l'\<rparr>))"

definition make_declaration ::
  "addr \<Rightarrow> addr \<Rightarrow> heap \<times> stmt_factory \<Rightarrow> error + (addr \<times> heap \<times> stmt_factory)" where
  "make_declaration v d s =
     (case emplace_node Declaration_ctor (v, d) (fst s) (decls (snd s)) of
        Inl e \<Rightarrow> Inl e
      | Inr (p, h', l') \<Rightarrow> Inr (p, h', (snd s)\<lparr>decls := l'\<rparr>))"

definition make_evaluation ::
  "addr \<Rightarrow> heap \<times> stmt_factory \<Rightarrow> error + (addr \<times> heap \<times> stmt_factory)" where
  "make_evaluation t s =
     (case emplace_node Evaluation_ctor t (fst s) (evals (snd s)) of
        Inl e \<Rightarrow> Inl e
      | Inr (p, h', l') \<Rightarrow> Inr (p, h', (snd s)\<lparr>evals := l'\<rparr>))"

section \<open>Sequences of calls\<close>

text \<open>
  A builder's view: one free store, one Term Arena, one Statement Arena, and a sequence of
  factory calls on them. A call that throws ends the sequence.
\<close>

record world =
  store :: heap
  terms :: term_factory
  stmts :: stmt_factory

datatype call =
    Make_variable addr
  | Make_abstraction addr addr
  | Make_application addr addr
  | Make_declaration addr addr
  | Make_evaluation addr

fun exec :: "call \<Rightarrow> world \<Rightarrow> error + (addr \<times> world)" where
  "exec (Make_variable symb) w =
     (case make_variable symb (store w, terms w) of
        Inl e \<Rightarrow> Inl e
      | Inr (p, h', tf') \<Rightarrow> Inr (p, w\<lparr>store := h', terms := tf'\<rparr>))"
| "exec (Make_abstraction v t) w =
     (case make_abstraction v t (store w, terms w) of
        Inl e \<Rightarrow> Inl e
      | Inr (p, h', tf') \<Rightarrow> Inr (p, w\<lparr>store := h', terms := tf'\<rparr>))"
| "exec (Make_application l r) w =
     (case make_application l r (store w, terms w) of
        Inl e \<Rightarrow> Inl e
      | Inr (p, h', tf') \<Rightarrow> Inr (p, w\<lparr>store := h', terms := tf'\<rparr>))"
| "exec (Make_declaration v d) w =
     (case make_declaration v d (store w, stmts w) of
        Inl e \<Rightarrow> Inl e
      | Inr (p, h', sf') \<Rightarrow> Inr (p, w\<lparr>store := h', stmts := sf'\<rparr>))"
| "exec (Make_evaluation t) w =
     (case make_evaluation t (store w, stmts w) of
        Inl e \<Rightarrow> Inl e
      | Inr (p, h', sf') \<Rightarrow> Inr (p, w\<lparr>store := h', stmts := sf'\<rparr>))"

text \<open>The addresses the calls return, in order, and the world after the last call.\<close>

fun run :: "call list \<Rightarrow> world \<Rightarrow> error + (addr list \<times> world)" where
  "run [] w = Inr ([], w)"
| "run (c # cs) w =
     (case exec c w of
        Inl e \<Rightarrow> Inl e
      | Inr (p, w1) \<Rightarrow>
          (case run cs w1 of
             Inl e \<Rightarrow> Inl e
           | Inr (ps, w') \<Rightarrow> Inr (p # ps, w')))"

text \<open>Two freshly constructed arenas over a given free store.\<close>

definition init :: "heap \<Rightarrow> world" where
  "init h = \<lparr>store = h,
             terms = \<lparr>var = [], abst = [], app = []\<rparr>,
             stmts = \<lparr>decls = [], evals = []\<rparr>\<rparr>"

text \<open>Any node, for speaking about all five storages at once.\<close>

datatype node =
    Var Variable_impl
  | Abs Abstraction_impl
  | App Application_impl
  | Decl Declaration_impl
  | Eval Evaluation_impl

definition tag :: "('a \<Rightarrow> node) \<Rightarrow> 'a storage \<Rightarrow> node storage" where
  "tag f l = map (\<lambda>c. (fst c, f (snd c))) l"

definition cells :: "world \<Rightarrow> node storage" where
  "cells w = tag Var (var (terms w)) @ tag Abs (abst (terms w)) @ tag App (app (terms w))
             @ tag Decl (decls (stmts w)) @ tag Eval (evals (stmts w))"

definition node_at :: "world \<Rightarrow> addr \<Rightarrow> node option" where
  "node_at w p = deref (cells w) p"

text \<open>
  What the allocator guarantees: the addresses it hands out are not null, differ from one
  another and from the addresses of the cells in use.
\<close>

definition wf_world :: "world \<Rightarrow> bool" where
  "wf_world w \<longleftrightarrow> distinct (map fst (cells w) @ store w)
                 \<and> nullptr \<notin> set (map fst (cells w) @ store w)"

text \<open>Every storage of the first world is an initial segment of the same storage of the second.\<close>

definition extends :: "world \<Rightarrow> world \<Rightarrow> bool" where
  "extends w w' \<longleftrightarrow>
     prefix (var (terms w)) (var (terms w')) \<and>
     prefix (abst (terms w)) (abst (terms w')) \<and>
     prefix (app (terms w)) (app (terms w')) \<and>
     prefix (decls (stmts w)) (decls (stmts w')) \<and>
     prefix (evals (stmts w)) (evals (stmts w'))"

text \<open>
  The node a call is to construct: of the call's kind, holding the call's arguments. What
  the code constructs is compared with it (lemma \<open>exec_node_at_new\<close>).
\<close>

fun node_of :: "call \<Rightarrow> node" where
  "node_of (Make_variable symb) = Var \<lparr>symbol = symb\<rparr>"
| "node_of (Make_abstraction v t) = Abs \<lparr>variable = v, body = t\<rparr>"
| "node_of (Make_application l r) = App \<lparr>left = l, right = r\<rparr>"
| "node_of (Make_declaration v d) = Decl \<lparr>decl_variable = v, decl_definition = d\<rparr>"
| "node_of (Make_evaluation t) = Eval \<lparr>eval_term = t\<rparr>"

text \<open>
  The node addresses a call passes for storing inside the new node. The Symbol of a Variable
  is not a node: Symbols are owned outside the arenas.
\<close>

fun call_refs :: "call \<Rightarrow> addr list" where
  "call_refs (Make_variable symb) = []"
| "call_refs (Make_abstraction v t) = [v, t]"
| "call_refs (Make_application l r) = [l, r]"
| "call_refs (Make_declaration v d) = [v, d]"
| "call_refs (Make_evaluation t) = [t]"

text \<open>The node addresses stored inside a node.\<close>

fun refs :: "node \<Rightarrow> addr list" where
  "refs (Var x) = []"
| "refs (Abs x) = [variable x, body x]"
| "refs (App x) = [left x, right x]"
| "refs (Decl x) = [decl_variable x, decl_definition x]"
| "refs (Eval x) = [eval_term x]"

text \<open>
  Given the addresses the calls of a sequence returned, in order: every address stored
  inside a node was returned by a call made strictly before the call that returned the
  node's own address.
\<close>

definition dependency_ordered :: "addr list \<Rightarrow> world \<Rightarrow> bool" where
  "dependency_ordered rets w \<longleftrightarrow>
     list_all (\<lambda>c. list_all (\<lambda>q. q \<in> set (takeWhile (\<lambda>r. r \<noteq> fst c) rets)) (refs (snd c)))
       (cells w)"

text \<open>
  The builder's discipline: every node address a call passes was returned by an earlier
  call of the sequence.
\<close>

definition disciplined :: "call list \<Rightarrow> addr list \<Rightarrow> bool" where
  "disciplined cs rets \<longleftrightarrow>
     list_all (\<lambda>i. list_all (\<lambda>q. q \<in> set (take i rets)) (call_refs (cs ! i))) [0..<length cs]"

text \<open>The addresses returned by the calls of one kind, in the order of the calls.\<close>

definition returned :: "(call \<Rightarrow> bool) \<Rightarrow> call list \<Rightarrow> addr list \<Rightarrow> addr list" where
  "returned P cs rets = map snd (filter (\<lambda>x. P (fst x)) (zip cs rets))"

fun is_variable_call :: "call \<Rightarrow> bool" where
  "is_variable_call (Make_variable symb) = True"
| "is_variable_call c = False"

fun is_abstraction_call :: "call \<Rightarrow> bool" where
  "is_abstraction_call (Make_abstraction v t) = True"
| "is_abstraction_call c = False"

fun is_application_call :: "call \<Rightarrow> bool" where
  "is_application_call (Make_application l r) = True"
| "is_application_call c = False"

fun is_declaration_call :: "call \<Rightarrow> bool" where
  "is_declaration_call (Make_declaration v d) = True"
| "is_declaration_call c = False"

fun is_evaluation_call :: "call \<Rightarrow> bool" where
  "is_evaluation_call (Make_evaluation t) = True"
| "is_evaluation_call c = False"

section \<open>Example states\<close>

text \<open>
  Arenas used to run the theorems on concrete inputs. The symbols \<open>x\<close>, \<open>y\<close> and \<open>z\<close> are at
  the addresses 1, 2 and 3; the free store hands out 10, 20, 30 and 40.
\<close>

abbreviation tf_empty :: term_factory where
  "tf_empty \<equiv> \<lparr>var = [], abst = [], app = []\<rparr>"

abbreviation tf_x :: term_factory where
  "tf_x \<equiv> \<lparr>var = [(10, \<lparr>symbol = 1\<rparr>)], abst = [], app = []\<rparr>"

abbreviation tf_x_y :: term_factory where
  "tf_x_y \<equiv> \<lparr>var = [(10, \<lparr>symbol = 1\<rparr>), (20, \<lparr>symbol = 2\<rparr>)], abst = [], app = []\<rparr>"

abbreviation tf_x_y_app :: term_factory where
  "tf_x_y_app \<equiv> \<lparr>var = [(10, \<lparr>symbol = 1\<rparr>), (20, \<lparr>symbol = 2\<rparr>)], abst = [],
                  app = [(30, \<lparr>left = 10, right = 20\<rparr>)]\<rparr>"

abbreviation tf_x_y_app_z :: term_factory where
  "tf_x_y_app_z \<equiv>
     \<lparr>var = [(10, \<lparr>symbol = 1\<rparr>), (20, \<lparr>symbol = 2\<rparr>), (40, \<lparr>symbol = 3\<rparr>)], abst = [],
      app = [(30, \<lparr>left = 10, right = 20\<rparr>)]\<rparr>"

abbreviation tf_id :: term_factory where
  "tf_id \<equiv> \<lparr>var = [(10, \<lparr>symbol = 1\<rparr>)], abst = [(20, \<lparr>variable = 10, body = 10\<rparr>)],
             app = []\<rparr>"

abbreviation tf_abs :: term_factory where
  "tf_abs \<equiv> \<lparr>var = [], abst = [(10, \<lparr>variable = 3, body = 4\<rparr>)], app = []\<rparr>"

abbreviation tf_x_x :: term_factory where
  "tf_x_x \<equiv> \<lparr>var = [(10, \<lparr>symbol = 1\<rparr>), (20, \<lparr>symbol = 1\<rparr>)], abst = [], app = []\<rparr>"

abbreviation tf_x_x_abs :: term_factory where
  "tf_x_x_abs \<equiv> \<lparr>var = [(10, \<lparr>symbol = 1\<rparr>), (20, \<lparr>symbol = 1\<rparr>)],
                  abst = [(30, \<lparr>variable = 10, body = 20\<rparr>)], app = []\<rparr>"

abbreviation tf_null_app :: term_factory where
  "tf_null_app \<equiv> \<lparr>var = [], abst = [], app = [(10, \<lparr>left = nullptr, right = nullptr\<rparr>)]\<rparr>"

abbreviation tf_null_app_var :: term_factory where
  "tf_null_app_var \<equiv> \<lparr>var = [(20, \<lparr>symbol = nullptr\<rparr>)], abst = [],
                       app = [(10, \<lparr>left = nullptr, right = nullptr\<rparr>)]\<rparr>"

abbreviation tf_early :: term_factory where
  "tf_early \<equiv> \<lparr>var = [(20, \<lparr>symbol = 1\<rparr>)], abst = [(10, \<lparr>variable = 5, body = 20\<rparr>)],
                app = []\<rparr>"

abbreviation sf_empty :: stmt_factory where
  "sf_empty \<equiv> \<lparr>decls = [], evals = []\<rparr>"

abbreviation sf_decl :: stmt_factory where
  "sf_decl \<equiv> \<lparr>decls = [(20, \<lparr>decl_variable = 10, decl_definition = 10\<rparr>)], evals = []\<rparr>"

abbreviation sf_eval :: stmt_factory where
  "sf_eval \<equiv> \<lparr>decls = [], evals = [(20, \<lparr>eval_term = 10\<rparr>)]\<rparr>"

abbreviation sf_decl_eval :: stmt_factory where
  "sf_decl_eval \<equiv> \<lparr>decls = [(20, \<lparr>decl_variable = 10, decl_definition = 10\<rparr>)],
                    evals = [(30, \<lparr>eval_term = 10\<rparr>)]\<rparr>"

abbreviation sf_eval_decl :: stmt_factory where
  "sf_eval_decl \<equiv> \<lparr>decls = [(30, \<lparr>decl_variable = 10, decl_definition = 10\<rparr>)],
                    evals = [(20, \<lparr>eval_term = 10\<rparr>)]\<rparr>"

abbreviation sf_eval_id :: stmt_factory where
  "sf_eval_id \<equiv> \<lparr>decls = [], evals = [(30, \<lparr>eval_term = 20\<rparr>)]\<rparr>"

abbreviation World :: "heap \<Rightarrow> term_factory \<Rightarrow> stmt_factory \<Rightarrow> world" where
  "World h tf sf \<equiv> \<lparr>store = h, terms = tf, stmts = sf\<rparr>"

section \<open>Basic facts\<close>

lemma emplace_back_nonempty:
  "emplace_back ctor args h l = Inr (h', l') \<Longrightarrow> l' \<noteq> []"
  by (auto simp: emplace_back_def operator_new_def split: list.splits)

lemma emplace_node_eq:
  "emplace_node ctor args h l =
     (case h of [] \<Rightarrow> Inl bad_alloc | a # h' \<Rightarrow> Inr (a, h', l @ [(a, ctor args)]))"
  by (simp add: emplace_node_def emplace_back_def operator_new_def back_addr_def
           split: list.splits)

lemma make_variable_eq:
  "make_variable symb (h, tf) =
     (case h of [] \<Rightarrow> Inl bad_alloc
      | p # h' \<Rightarrow> Inr (p, h', tf\<lparr>var := var tf @ [(p, \<lparr>symbol = symb\<rparr>)]\<rparr>))"
  by (simp add: make_variable_def emplace_node_eq Variable_ctor_def split: list.splits)

lemma make_abstraction_eq:
  "make_abstraction v t (h, tf) =
     (case h of [] \<Rightarrow> Inl bad_alloc
      | p # h' \<Rightarrow> Inr (p, h', tf\<lparr>abst := abst tf @ [(p, \<lparr>variable = v, body = t\<rparr>)]\<rparr>))"
  by (simp add: make_abstraction_def emplace_node_eq Abstraction_ctor_def split: list.splits)

lemma make_application_eq:
  "make_application l r (h, tf) =
     (case h of [] \<Rightarrow> Inl bad_alloc
      | p # h' \<Rightarrow> Inr (p, h', tf\<lparr>app := app tf @ [(p, \<lparr>left = l, right = r\<rparr>)]\<rparr>))"
  by (simp add: make_application_def emplace_node_eq Application_ctor_def split: list.splits)

lemma make_declaration_eq:
  "make_declaration v d (h, sf) =
     (case h of [] \<Rightarrow> Inl bad_alloc
      | p # h' \<Rightarrow>
          Inr (p, h', sf\<lparr>decls := decls sf
                              @ [(p, \<lparr>decl_variable = v, decl_definition = d\<rparr>)]\<rparr>))"
  by (simp add: make_declaration_def emplace_node_eq Declaration_ctor_def split: list.splits)

lemma make_evaluation_eq:
  "make_evaluation t (h, sf) =
     (case h of [] \<Rightarrow> Inl bad_alloc
      | p # h' \<Rightarrow> Inr (p, h', sf\<lparr>evals := evals sf @ [(p, \<lparr>eval_term = t\<rparr>)]\<rparr>))"
  by (simp add: make_evaluation_def emplace_node_eq Evaluation_ctor_def split: list.splits)

lemmas make_eq = make_variable_eq make_abstraction_eq make_application_eq
  make_declaration_eq make_evaluation_eq

lemma exec_Inl: "exec c w = Inl e \<longleftrightarrow> store w = []"
  by (cases c; cases e) (simp_all add: make_eq split: list.splits)

lemma exec_store: "exec c w = Inr (p, w') \<Longrightarrow> store w = p # store w'"
  by (cases c) (auto simp: make_eq split: list.splits)

lemma exec_extends: "exec c w = Inr (p, w') \<Longrightarrow> extends w w'"
  by (cases c) (auto simp: make_eq extends_def split: list.splits)

lemma set_cells_exec:
  "exec c w = Inr (p, w') \<Longrightarrow> set (cells w') = insert (p, node_of c) (set (cells w))"
  by (cases c) (auto simp: make_eq cells_def tag_def split: list.splits)

lemma length_cells_exec:
  "exec c w = Inr (p, w') \<Longrightarrow> length (cells w') = Suc (length (cells w))"
  by (cases c) (auto simp: make_eq cells_def tag_def split: list.splits)

lemma set_addrs_exec:
  "exec c w = Inr (p, w') \<Longrightarrow> set (map fst (cells w')) = insert p (set (map fst (cells w)))"
  using set_cells_exec [of c w p w'] by (simp del: set_map add: set_map [of fst])

lemma exec_wf:
  assumes "wf_world w" and "exec c w = Inr (p, w')"
  shows "wf_world w'"
proof -
  let ?A = "map fst (cells w)" and ?A' = "map fst (cells w')"
  from assms(2) have st: "store w = p # store w'" by (rule exec_store)
  from assms(2) have A': "set ?A' = insert p (set ?A)" by (rule set_addrs_exec)
  from assms(2) have len: "length ?A' = Suc (length ?A)"
    using length_cells_exec [of c w p w'] by simp
  from assms(1) st have d: "distinct ?A" "p \<notin> set ?A" "distinct (store w')"
    "p \<notin> set (store w')" "set ?A \<inter> set (store w') = {}" "p \<noteq> nullptr"
    "nullptr \<notin> set ?A" "nullptr \<notin> set (store w')"
    by (auto simp: wf_world_def)
  from d(1) have "card (set ?A) = length ?A" by (rule distinct_card)
  with d(2) have "card (set ?A') = length ?A'"
    unfolding A' len by simp
  then have "distinct ?A'" by (rule card_distinct)
  moreover have "set ?A' \<inter> set (store w') = {}"
    unfolding A' using d(4,5) by auto
  moreover have "nullptr \<notin> set ?A'" unfolding A' using d(6,7) by auto
  ultimately show ?thesis using d(3,8) unfolding wf_world_def distinct_append set_append
    by blast
qed

lemma exec_fresh:
  "wf_world w \<Longrightarrow> exec c w = Inr (p, w') \<Longrightarrow> p \<noteq> nullptr \<and> p \<notin> fst ` set (cells w)"
  using exec_store [of c w p w'] by (auto simp: wf_world_def)

lemma exec_node_at_new:
  assumes "wf_world w" and "exec c w = Inr (p, w')"
  shows "node_at w' p = Some (node_of c)"
proof -
  from assms have "wf_world w'" by (rule exec_wf)
  then have "distinct (map fst (cells w'))" by (simp add: wf_world_def)
  moreover from assms(2) have "(p, node_of c) \<in> set (cells w')"
    by (simp add: set_cells_exec)
  ultimately show ?thesis by (simp add: node_at_def deref_def)
qed

lemma exec_node_at_old:
  assumes "wf_world w" and "exec c w = Inr (p, w')" and "node_at w q = Some n"
  shows "node_at w' q = Some n"
proof -
  from assms(1,2) have "wf_world w'" by (rule exec_wf)
  then have "distinct (map fst (cells w'))" by (simp add: wf_world_def)
  moreover from assms(3) have "(q, n) \<in> set (cells w)"
    by (auto simp: node_at_def deref_def dest: map_of_SomeD)
  with assms(2) have "(q, n) \<in> set (cells w')" by (simp add: set_cells_exec)
  ultimately show ?thesis by (simp add: node_at_def deref_def)
qed

lemma run_length: "run cs w = Inr (ps, w') \<Longrightarrow> length ps = length cs"
  by (induction cs arbitrary: w ps) (auto split: sum.splits)

lemma run_wf: "wf_world w \<Longrightarrow> run cs w = Inr (ps, w') \<Longrightarrow> wf_world w'"
proof (induction cs arbitrary: w ps)
  case Nil
  then show ?case by simp
next
  case (Cons c cs)
  from Cons.prems(2) obtain p w1 ps1 where
    e: "exec c w = Inr (p, w1)" and r: "run cs w1 = Inr (ps1, w')"
    by (auto split: sum.splits)
  from Cons.prems(1) e have "wf_world w1" by (rule exec_wf)
  then show ?case using r by (rule Cons.IH)
qed

lemma run_node_at_old:
  "wf_world w \<Longrightarrow> run cs w = Inr (ps, w') \<Longrightarrow> node_at w q = Some n \<Longrightarrow> node_at w' q = Some n"
proof (induction cs arbitrary: w ps)
  case Nil
  then show ?case by simp
next
  case (Cons c cs)
  from Cons.prems(2) obtain p w1 ps1 where
    e: "exec c w = Inr (p, w1)" and r: "run cs w1 = Inr (ps1, w')"
    by (auto split: sum.splits)
  from Cons.prems(1) e have w1: "wf_world w1" by (rule exec_wf)
  from Cons.prems(1) e Cons.prems(3) have "node_at w1 q = Some n"
    by (rule exec_node_at_old)
  with w1 r show ?case by (rule Cons.IH)
qed

lemma extends_refl: "extends w w"
  by (simp add: extends_def)

lemma extends_trans: "extends w1 w2 \<Longrightarrow> extends w2 w3 \<Longrightarrow> extends w1 w3"
  by (auto simp: extends_def)

lemma run_extends: "run cs w = Inr (ps, w') \<Longrightarrow> extends w w'"
proof (induction cs arbitrary: w ps)
  case Nil
  then show ?case by (simp add: extends_refl)
next
  case (Cons c cs)
  from Cons.prems obtain p w1 ps1 where
    e: "exec c w = Inr (p, w1)" and r: "run cs w1 = Inr (ps1, w')"
    by (auto split: sum.splits)
  from e have "extends w w1" by (rule exec_extends)
  moreover from r have "extends w1 w'" by (rule Cons.IH)
  ultimately show ?case by (rule extends_trans)
qed

lemma run_append:
  "run (cs1 @ cs2) w =
     (case run cs1 w of
        Inl e \<Rightarrow> Inl e
      | Inr (ps1, w1) \<Rightarrow>
          (case run cs2 w1 of
             Inl e \<Rightarrow> Inl e
           | Inr (ps2, w2) \<Rightarrow> Inr (ps1 @ ps2, w2)))"
  by (induction cs1 arbitrary: w) (auto split: sum.splits)

lemma run_snoc_node_at:
  assumes "wf_world w" and "run (cs @ [c]) w = Inr (ps, w')"
  shows "node_at w' (last ps) = Some (node_of c)"
proof -
  from assms(2) obtain ps1 w1 p where
    r: "run cs w = Inr (ps1, w1)" and e: "exec c w1 = Inr (p, w')" and ps: "ps = ps1 @ [p]"
    by (auto simp: run_append split: sum.splits)
  from assms(1) r have "wf_world w1" by (rule run_wf)
  then show ?thesis using e ps by (simp add: exec_node_at_new)
qed

lemma deref_snoc_new: "p \<notin> fst ` set l \<Longrightarrow> deref (l @ [(p, x)]) p = Some x"
  by (simp add: deref_def map_add_def map_of_eq_None_iff [THEN iffD2])

lemma wf_init: "wf_world (init h) \<longleftrightarrow> distinct h \<and> nullptr \<notin> set h"
  by (simp add: wf_world_def init_def cells_def tag_def)

lemma map_fst_tag: "map fst (tag f l) = map fst l"
  by (simp add: tag_def)

lemma wf_node_at: "wf_world w \<Longrightarrow> node_at w p = Some x \<longleftrightarrow> (p, x) \<in> set (cells w)"
  by (simp add: wf_world_def node_at_def deref_def)

lemma wf_deref:
  assumes "wf_world w"
  shows "deref (var (terms w)) p = Some a \<longleftrightarrow> (p, a) \<in> set (var (terms w))"
    and "deref (abst (terms w)) p = Some b \<longleftrightarrow> (p, b) \<in> set (abst (terms w))"
    and "deref (app (terms w)) p = Some c \<longleftrightarrow> (p, c) \<in> set (app (terms w))"
    and "deref (decls (stmts w)) p = Some d \<longleftrightarrow> (p, d) \<in> set (decls (stmts w))"
    and "deref (evals (stmts w)) p = Some e \<longleftrightarrow> (p, e) \<in> set (evals (stmts w))"
  using assms by (simp_all add: wf_world_def cells_def map_fst_tag deref_def)

lemma in_tag: "inj f \<Longrightarrow> (p, f x) \<in> set (tag f l) \<longleftrightarrow> (p, x) \<in> set l"
  by (induction l) (auto simp: tag_def dest: injD)

lemma notin_tag: "(\<And>y. f y \<noteq> z) \<Longrightarrow> (p, z) \<notin> set (tag f l)"
  by (induction l) (auto simp: tag_def)

lemma in_cells:
  "(p, Var a) \<in> set (cells w) \<longleftrightarrow> (p, a) \<in> set (var (terms w))"
  "(p, Abs b) \<in> set (cells w) \<longleftrightarrow> (p, b) \<in> set (abst (terms w))"
  "(p, App c) \<in> set (cells w) \<longleftrightarrow> (p, c) \<in> set (app (terms w))"
  "(p, Decl d) \<in> set (cells w) \<longleftrightarrow> (p, d) \<in> set (decls (stmts w))"
  "(p, Eval e) \<in> set (cells w) \<longleftrightarrow> (p, e) \<in> set (evals (stmts w))"
  by (simp_all add: cells_def in_tag notin_tag inj_def)

lemma wf_node_at_deref:
  assumes "wf_world w"
  shows "node_at w p = Some (Var a) \<longleftrightarrow> deref (var (terms w)) p = Some a"
    and "node_at w p = Some (Abs b) \<longleftrightarrow> deref (abst (terms w)) p = Some b"
    and "node_at w p = Some (App c) \<longleftrightarrow> deref (app (terms w)) p = Some c"
    and "node_at w p = Some (Decl d) \<longleftrightarrow> deref (decls (stmts w)) p = Some d"
    and "node_at w p = Some (Eval e) \<longleftrightarrow> deref (evals (stmts w)) p = Some e"
  using assms by (simp_all add: wf_node_at wf_deref in_cells)

lemma run_store: "run cs w = Inr (ps, w') \<Longrightarrow> store w = ps @ store w'"
proof (induction cs arbitrary: w ps)
  case Nil
  then show ?case by simp
next
  case (Cons c cs)
  from Cons.prems obtain p w1 ps1 where
    e: "exec c w = Inr (p, w1)" and r: "run cs w1 = Inr (ps1, w')" and ps: "ps = p # ps1"
    by (auto split: sum.splits)
  from exec_store [OF e] Cons.IH [OF r] ps show ?case by simp
qed

lemma run_fresh:
  assumes "wf_world w" and "run cs w = Inr (ps, w')"
  shows "distinct ps" and "set ps \<inter> fst ` set (cells w) = {}" and "nullptr \<notin> set ps"
  using assms(1) run_store [OF assms(2)] by (auto simp: wf_world_def)

lemma set_cells_run:
  "run cs w = Inr (ps, w') \<Longrightarrow>
     set (cells w') = set (cells w) \<union> set (zip ps (map node_of cs))"
proof (induction cs arbitrary: w ps)
  case Nil
  then show ?case by simp
next
  case (Cons c cs)
  from Cons.prems obtain p w1 ps1 where
    e: "exec c w = Inr (p, w1)" and r: "run cs w1 = Inr (ps1, w')" and ps: "ps = p # ps1"
    by (auto split: sum.splits)
  from set_cells_exec [OF e] Cons.IH [OF r] ps show ?case by simp
qed

lemma length_cells_run:
  "run cs w = Inr (ps, w') \<Longrightarrow> length (cells w') = length (cells w) + length cs"
proof (induction cs arbitrary: w ps)
  case Nil
  then show ?case by simp
next
  case (Cons c cs)
  from Cons.prems obtain p w1 ps1 where
    e: "exec c w = Inr (p, w1)" and r: "run cs w1 = Inr (ps1, w')"
    by (auto split: sum.splits)
  from Cons.IH [OF r] length_cells_exec [OF e] show ?case by simp
qed

lemma refs_node_of: "refs (node_of c) = call_refs c"
  by (cases c) simp_all

lemma returned_Cons:
  "returned P (c # cs) (p # ps) = (if P c then [p] else []) @ returned P cs ps"
  by (simp add: returned_def)

lemma returned_Nil: "returned P [] ps = []"
  by (simp add: returned_def)

lemma exec_kinds:
  assumes "exec c w = Inr (p, w1)"
  shows "map fst (var (terms w1))
           = map fst (var (terms w)) @ (if is_variable_call c then [p] else [])"
    and "map fst (abst (terms w1))
           = map fst (abst (terms w)) @ (if is_abstraction_call c then [p] else [])"
    and "map fst (app (terms w1))
           = map fst (app (terms w)) @ (if is_application_call c then [p] else [])"
    and "map fst (decls (stmts w1))
           = map fst (decls (stmts w)) @ (if is_declaration_call c then [p] else [])"
    and "map fst (evals (stmts w1))
           = map fst (evals (stmts w)) @ (if is_evaluation_call c then [p] else [])"
  using assms by (cases c; auto simp: make_eq split: list.splits)+

lemma run_kinds:
  assumes "run cs w = Inr (ps, w')"
  shows "map fst (var (terms w')) = map fst (var (terms w)) @ returned is_variable_call cs ps"
    and "map fst (abst (terms w'))
           = map fst (abst (terms w)) @ returned is_abstraction_call cs ps"
    and "map fst (app (terms w'))
           = map fst (app (terms w)) @ returned is_application_call cs ps"
    and "map fst (decls (stmts w'))
           = map fst (decls (stmts w)) @ returned is_declaration_call cs ps"
    and "map fst (evals (stmts w'))
           = map fst (evals (stmts w)) @ returned is_evaluation_call cs ps"
  using assms
proof (induction cs arbitrary: w ps)
  case Nil
  {
    case 1 then show ?case by (simp add: returned_Nil)
  next
    case 2 then show ?case by (simp add: returned_Nil)
  next
    case 3 then show ?case by (simp add: returned_Nil)
  next
    case 4 then show ?case by (simp add: returned_Nil)
  next
    case 5 then show ?case by (simp add: returned_Nil)
  }
next
  case (Cons c cs)
  {
    case 1
    then obtain p w1 ps1 where
      e: "exec c w = Inr (p, w1)" and r: "run cs w1 = Inr (ps1, w')" and ps: "ps = p # ps1"
      by (auto split: sum.splits)
    from Cons.IH(1) [OF r] exec_kinds(1) [OF e] ps show ?case
      by (simp add: returned_Cons)
  next
    case 2
    then obtain p w1 ps1 where
      e: "exec c w = Inr (p, w1)" and r: "run cs w1 = Inr (ps1, w')" and ps: "ps = p # ps1"
      by (auto split: sum.splits)
    from Cons.IH(2) [OF r] exec_kinds(2) [OF e] ps show ?case
      by (simp add: returned_Cons)
  next
    case 3
    then obtain p w1 ps1 where
      e: "exec c w = Inr (p, w1)" and r: "run cs w1 = Inr (ps1, w')" and ps: "ps = p # ps1"
      by (auto split: sum.splits)
    from Cons.IH(3) [OF r] exec_kinds(3) [OF e] ps show ?case
      by (simp add: returned_Cons)
  next
    case 4
    then obtain p w1 ps1 where
      e: "exec c w = Inr (p, w1)" and r: "run cs w1 = Inr (ps1, w')" and ps: "ps = p # ps1"
      by (auto split: sum.splits)
    from Cons.IH(4) [OF r] exec_kinds(4) [OF e] ps show ?case
      by (simp add: returned_Cons)
  next
    case 5
    then obtain p w1 ps1 where
      e: "exec c w = Inr (p, w1)" and r: "run cs w1 = Inr (ps1, w')" and ps: "ps = p # ps1"
      by (auto split: sum.splits)
    from Cons.IH(5) [OF r] exec_kinds(5) [OF e] ps show ?case
      by (simp add: returned_Cons)
  }
qed

lemma run_node_at_nth:
  assumes "wf_world w" and "run cs w = Inr (ps, w')" and "k < length cs"
  shows "\<exists>wk. run (take (Suc k) cs) w = Inr (take (Suc k) ps, wk) \<and> wf_world wk
      \<and>
           run (drop (Suc k) cs) wk = Inr (drop (Suc k) ps, w') \<and>
           node_at wk (ps ! k) = Some (node_of (cs ! k))"
proof -
  let ?a = "take (Suc k) cs" and ?b = "drop (Suc k) cs"
  have "run (?a @ ?b) w = Inr (ps, w')" using assms(2) by simp
  then obtain ps1 wk ps2 where
    r1: "run ?a w = Inr (ps1, wk)" and r2: "run ?b wk = Inr (ps2, w')" and ps: "ps = ps1 @ ps2"
    unfolding run_append by (auto split: sum.splits)
  from run_length [OF r1] assms(3) have len: "length ps1 = Suc k" by simp
  with ps have tk: "take (Suc k) ps = ps1" and dr: "drop (Suc k) ps = ps2" by simp_all
  from len ps have lst: "last ps1 = ps ! k"
    by (cases ps1 rule: rev_cases) (simp_all add: nth_append)
  from assms(3) have "?a = take k cs @ [cs ! k]" by (rule take_Suc_conv_app_nth)
  with r1 have "run (take k cs @ [cs ! k]) w = Inr (ps1, wk)" by simp
  with assms(1) have "node_at wk (last ps1) = Some (node_of (cs ! k))"
    by (rule run_snoc_node_at)
  moreover from assms(1) r1 have "wf_world wk" by (rule run_wf)
  ultimately show ?thesis using r1 r2 tk dr lst by auto
qed

section \<open>The claims\<close>

text \<open>
  C1. Address stability. In a sequence of creation calls on the arenas, the address the
  \<open>k\<close>-th call returns keeps referring to the node that call created: once the calls after it
  have completed, every cell that existed after the \<open>k\<close>-th call is where it was, and reading
  the returned address gives the same node as it did right after the \<open>k\<close>-th call. This rests
  on the storage modelled from the spec, which never relocates an element.
\<close>

theorem address_stability:
  assumes "wf_world w" and "run cs w = Inr (rets, w')" and "k < length cs"
  shows "\<exists>wk. run (take (Suc k) cs) w = Inr (take (Suc k) rets, wk) \<and>
           node_at wk (rets ! k) = Some (node_of (cs ! k)) \<and>
           extends wk w' \<and>
           node_at w' (rets ! k) = node_at wk (rets ! k)"
proof -
  from run_node_at_nth [OF assms] obtain wk where
    r1: "run (take (Suc k) cs) w = Inr (take (Suc k) rets, wk)" and wf: "wf_world wk" and
    r2: "run (drop (Suc k) cs) wk = Inr (drop (Suc k) rets, w')" and
    n: "node_at wk (rets ! k) = Some (node_of (cs ! k))"
    by blast
  from r2 have "extends wk w'" by (rule run_extends)
  moreover from wf r2 n have "node_at w' (rets ! k) = Some (node_of (cs ! k))"
    by (rule run_node_at_old)
  ultimately show ?thesis using r1 n by auto
qed

theorem address_stability_witness:
  "wf_world (World [10, 20, 30] tf_empty sf_empty) \<and>
   run [Make_variable 1, Make_variable 1, Make_abstraction 10 20]
       (World [10, 20, 30] tf_empty sf_empty)
     = Inr ([10, 20, 30], World [] tf_x_x_abs sf_empty) \<and>
   (0 :: nat) < length [Make_variable 1, Make_variable 1, Make_abstraction 10 20] \<and>
   run (take (Suc 0) [Make_variable 1, Make_variable 1, Make_abstraction 10 20])
       (World [10, 20, 30] tf_empty sf_empty)
     = Inr (take (Suc 0) [10, 20, 30], World [20, 30] tf_x sf_empty) \<and>
   node_at (World [20, 30] tf_x sf_empty) 10 = Some (Var \<lparr>symbol = 1\<rparr>) \<and>
   extends (World [20, 30] tf_x sf_empty) (World [] tf_x_x_abs sf_empty) \<and>
   node_at (World [] tf_x_x_abs sf_empty) 10 = Some (Var \<lparr>symbol = 1\<rparr>)"
proof -
  let ?w0 = "World [10, 20, 30] tf_empty sf_empty"
  let ?w1 = "World [20, 30] tf_x sf_empty"
  let ?w3 = "World [] tf_x_x_abs sf_empty"
  let ?cs = "[Make_variable 1, Make_variable 1, Make_abstraction 10 20]"
  let ?rets = "[10, 20, 30 :: nat]"
  have wf: "wf_world ?w0"
    by (simp add: wf_world_def cells_def tag_def nullptr_def)
  have r: "run ?cs ?w0 = Inr (?rets, ?w3)"
    by (simp add: make_eq)
  have k: "(0 :: nat) < length ?cs" by simp
  have r1: "run (take (Suc 0) ?cs) ?w0 = Inr (take (Suc 0) ?rets, ?w1)"
    by (simp add: make_eq)
  from address_stability [OF wf r k] obtain wk where
    a: "run (take (Suc 0) ?cs) ?w0 = Inr (take (Suc 0) ?rets, wk)" and
    b: "node_at wk (?rets ! 0) = Some (node_of (?cs ! 0))" and
    c: "extends wk ?w3" and
    d: "node_at ?w3 (?rets ! 0) = node_at wk (?rets ! 0)"
    by blast
  from a r1 have wk: "wk = ?w1" by simp
  from b wk have b': "node_at ?w1 10 = Some (Var \<lparr>symbol = 1\<rparr>)" by simp
  from c wk have c': "extends ?w1 ?w3" by simp
  from d b have d': "node_at ?w3 10 = Some (Var \<lparr>symbol = 1\<rparr>)" by simp
  from wf r k r1 b' c' d' show ?thesis by blast
qed

text \<open>
  C2. Every factory operation of both arenas grows the storage for its node kind by exactly
  one element, constructed from exactly the arguments of the call, and returns the address
  of that element, which is the last of the storage.
\<close>

theorem factories_append_one:
  "(make_variable symb (h, tf) = Inr (p, h', tf') \<longrightarrow>
      var tf' = var tf @ [(p, \<lparr>symbol = symb\<rparr>)] \<and>
      length (var tf') = Suc (length (var tf)) \<and> p = back_addr (var tf')) \<and>
   (make_abstraction v t (h, tf) = Inr (p, h', tf') \<longrightarrow>
      abst tf' = abst tf @ [(p, \<lparr>variable = v, body = t\<rparr>)] \<and>
      length (abst tf') = Suc (length (abst tf)) \<and> p = back_addr (abst tf')) \<and>
   (make_application l r (h, tf) = Inr (p, h', tf') \<longrightarrow>
      app tf' = app tf @ [(p, \<lparr>left = l, right = r\<rparr>)] \<and>
      length (app tf') = Suc (length (app tf)) \<and> p = back_addr (app tf')) \<and>
   (make_declaration v d (h, sf) = Inr (p, h', sf') \<longrightarrow>
      decls sf' = decls sf @ [(p, \<lparr>decl_variable = v, decl_definition = d\<rparr>)] \<and>
      length (decls sf') = Suc (length (decls sf)) \<and> p = back_addr (decls sf')) \<and>
   (make_evaluation t (h, sf) = Inr (p, h', sf') \<longrightarrow>
      evals sf' = evals sf @ [(p, \<lparr>eval_term = t\<rparr>)] \<and>
      length (evals sf') = Suc (length (evals sf)) \<and> p = back_addr (evals sf'))"
  by (auto simp: make_eq back_addr_def split: list.splits)

theorem factories_append_one_witness:
  "make_variable 1 ([10, 20], tf_empty) = Inr (10, [20], tf_x) \<and>
   make_abstraction 10 10 ([20], tf_x) = Inr (20, [], tf_id) \<and>
   make_application 10 20 ([30, 40], tf_x_y) = Inr (30, [40], tf_x_y_app) \<and>
   make_declaration 10 10 ([20], sf_empty) = Inr (20, [], sf_decl) \<and>
   make_evaluation 10 ([20], sf_empty) = Inr (20, [], sf_eval) \<and>
   var tf_x = var tf_empty @ [(10, \<lparr>symbol = 1\<rparr>)] \<and>
   length (var tf_x) = Suc (length (var tf_empty)) \<and> 10 = back_addr (var tf_x) \<and>
   abst tf_id = abst tf_x @ [(20, \<lparr>variable = 10, body = 10\<rparr>)] \<and>
   length (abst tf_id) = Suc (length (abst tf_x)) \<and> 20 = back_addr (abst tf_id) \<and>
   app tf_x_y_app = app tf_x_y @ [(30, \<lparr>left = 10, right = 20\<rparr>)] \<and>
   length (app tf_x_y_app) = Suc (length (app tf_x_y)) \<and> 30 = back_addr (app tf_x_y_app) \<and>
   decls sf_decl = decls sf_empty @ [(20, \<lparr>decl_variable = 10, decl_definition = 10\<rparr>)] \<and>
   length (decls sf_decl) = Suc (length (decls sf_empty)) \<and> 20 = back_addr (decls sf_decl) \<and>
   evals sf_eval = evals sf_empty @ [(20, \<lparr>eval_term = 10\<rparr>)] \<and>
   length (evals sf_eval) = Suc (length (evals sf_empty)) \<and> 20 = back_addr (evals sf_eval)"
proof -
  have a: "make_variable 1 ([10, 20], tf_empty) = Inr (10, [20], tf_x)"
    by (simp add: make_variable_eq)
  have b: "make_abstraction 10 10 ([20], tf_x) = Inr (20, [], tf_id)"
    by (simp add: make_abstraction_eq)
  have c: "make_application 10 20 ([30, 40], tf_x_y) = Inr (30, [40], tf_x_y_app)"
    by (simp add: make_application_eq)
  have d: "make_declaration 10 10 ([20], sf_empty) = Inr (20, [], sf_decl)"
    by (simp add: make_declaration_eq)
  have e: "make_evaluation 10 ([20], sf_empty) = Inr (20, [], sf_eval)"
    by (simp add: make_evaluation_eq)
  note t = factories_append_one
  note u = t [THEN conjunct2]
  note v = u [THEN conjunct2]
  note w = v [THEN conjunct2]
  have a': "var tf_x = var tf_empty @ [(10, \<lparr>symbol = 1\<rparr>)] \<and>
            length (var tf_x) = Suc (length (var tf_empty)) \<and> 10 = back_addr (var tf_x)"
    by (rule t [THEN conjunct1, THEN mp]) (rule a)
  have b': "abst tf_id = abst tf_x @ [(20, \<lparr>variable = 10, body = 10\<rparr>)] \<and>
            length (abst tf_id) = Suc (length (abst tf_x)) \<and> 20 = back_addr (abst tf_id)"
    by (rule u [THEN conjunct1, THEN mp]) (rule b)
  have c': "app tf_x_y_app = app tf_x_y @ [(30, \<lparr>left = 10, right = 20\<rparr>)] \<and>
            length (app tf_x_y_app) = Suc (length (app tf_x_y)) \<and>
            30 = back_addr (app tf_x_y_app)"
    by (rule v [THEN conjunct1, THEN mp]) (rule c)
  have d': "decls sf_decl
              = decls sf_empty @ [(20, \<lparr>decl_variable = 10, decl_definition = 10\<rparr>)] \<and>
            length (decls sf_decl) = Suc (length (decls sf_empty)) \<and>
            20 = back_addr (decls sf_decl)"
    by (rule w [THEN conjunct1, THEN mp]) (rule d)
  have e': "evals sf_eval = evals sf_empty @ [(20, \<lparr>eval_term = 10\<rparr>)] \<and>
            length (evals sf_eval) = Suc (length (evals sf_empty)) \<and>
            20 = back_addr (evals sf_eval)"
    by (rule w [THEN conjunct2, THEN mp]) (rule e)
  from a b c d e a' b' c' d' e' show ?thesis by blast
qed

text \<open>
  C3. The Abstraction that \<open>make_abstraction v t\<close> returns holds exactly the addresses passed
  in: reading its address gives the variable \<open>v\<close> and the body \<open>t\<close>. In particular, after
  \<open>v1 = make_variable x\<close>, the abstraction made from \<open>v1\<close> and \<open>v1\<close> has \<open>v1\<close> as its variable
  and as its body. The hypothesis is the allocator's guarantee: the addresses it hands out
  differ from one another and from those of the abstractions in use.
\<close>

theorem make_abstraction_exposes_arguments:
  assumes "distinct (map fst (abst tf) @ h)"
  shows "(make_abstraction v t (h, tf) = Inr (p, h', tf') \<longrightarrow>
            deref (abst tf') p = Some \<lparr>variable = v, body = t\<rparr>) \<and>
         (make_variable x (h, tf) = Inr (v1, h1, tf1) \<and>
          make_abstraction v1 v1 (h1, tf1) = Inr (q, h2, tf2) \<longrightarrow>
            deref (abst tf2) q = Some \<lparr>variable = v1, body = v1\<rparr>)"
  using assms by (auto simp: make_eq deref_snoc_new split: list.splits)

theorem make_abstraction_exposes_arguments_witness:
  "distinct (map fst (abst tf_empty) @ [10, 20 :: nat]) \<and>
   make_abstraction 3 4 ([10, 20], tf_empty) = Inr (10, [20], tf_abs) \<and>
   deref (abst tf_abs) 10 = Some \<lparr>variable = 3, body = 4\<rparr> \<and>
   make_variable 1 ([10, 20], tf_empty) = Inr (10, [20], tf_x) \<and>
   make_abstraction 10 10 ([20], tf_x) = Inr (20, [], tf_id) \<and>
   deref (abst tf_id) 20 = Some \<lparr>variable = 10, body = 10\<rparr>"
proof -
  have d: "distinct (map fst (abst tf_empty) @ [10, 20 :: nat])" by simp
  have a: "make_variable 1 ([10, 20], tf_empty) = Inr (10, [20], tf_x)"
    by (simp add: make_variable_eq)
  have b: "make_abstraction 10 10 ([20], tf_x) = Inr (20, [], tf_id)"
    by (simp add: make_abstraction_eq)
  have c: "make_abstraction 3 4 ([10, 20], tf_empty) = Inr (10, [20], tf_abs)"
    by (simp add: make_abstraction_eq)
  note t = make_abstraction_exposes_arguments [OF d]
  have c': "deref (abst tf_abs) 10 = Some \<lparr>variable = 3, body = 4\<rparr>"
    by (rule t [THEN conjunct1, THEN mp]) (rule c)
  have b': "deref (abst tf_id) 20 = Some \<lparr>variable = 10, body = 10\<rparr>"
    by (rule t [THEN conjunct2, THEN mp]) (rule conjI [OF a b])
  from d a b c c' b' show ?thesis by blast
qed

text \<open>
  C4. \<open>make_declaration v d\<close> appends a Declaration holding exactly \<open>v\<close> and \<open>d\<close> and returns
  its address; \<open>make_evaluation t\<close> appends an Evaluation holding exactly \<open>t\<close> and returns its
  address. The address is stable: whatever calls follow, reading it gives the same node.
\<close>

theorem statement_factories:
  assumes "wf_world w"
  shows
    "(make_declaration v d (store w, stmts w) = Inr (p, h', sf') \<longrightarrow>
        decls sf' = decls (stmts w) @ [(p, \<lparr>decl_variable = v, decl_definition =
            d\<rparr>)] \<and>
        p = back_addr (decls sf') \<and>
        deref (decls sf') p = Some \<lparr>decl_variable = v, decl_definition = d\<rparr> \<and>
        (\<forall>cs ps w2. run cs (w\<lparr>store := h', stmts := sf'\<rparr>) = Inr (ps, w2)
            \<longrightarrow>
           deref (decls (stmts w2)) p = Some \<lparr>decl_variable = v, decl_definition =
               d\<rparr>)) \<and>
     (make_evaluation t (store w, stmts w) = Inr (p, h', sf') \<longrightarrow>
        evals sf' = evals (stmts w) @ [(p, \<lparr>eval_term = t\<rparr>)] \<and>
        p = back_addr (evals sf') \<and>
        deref (evals sf') p = Some \<lparr>eval_term = t\<rparr> \<and>
        (\<forall>cs ps w2. run cs (w\<lparr>store := h', stmts := sf'\<rparr>) = Inr (ps, w2)
            \<longrightarrow>
           deref (evals (stmts w2)) p = Some \<lparr>eval_term = t\<rparr>))"
proof (intro conjI impI allI)
  let ?w1 = "w\<lparr>store := h', stmts := sf'\<rparr>"
  let ?n = "\<lparr>decl_variable = v, decl_definition = d\<rparr>"
  assume m: "make_declaration v d (store w, stmts w) = Inr (p, h', sf')"
  then show "decls sf' = decls (stmts w) @ [(p, ?n)]" "p = back_addr (decls sf')"
    by (auto simp: make_eq back_addr_def split: list.splits)
  from m have e: "exec (Make_declaration v d) w = Inr (p, ?w1)" by simp
  from assms e have wf1: "wf_world ?w1" by (rule exec_wf)
  from assms e have n: "node_at ?w1 p = Some (Decl ?n)"
    using exec_node_at_new by fastforce
  with wf1 show "deref (decls sf') p = Some ?n"
    using wf_node_at_deref(4) [of ?w1 p ?n] by simp
  fix cs ps w2
  assume r: "run cs ?w1 = Inr (ps, w2)"
  from wf1 r have wf2: "wf_world w2" by (rule run_wf)
  from wf1 r n have "node_at w2 p = Some (Decl ?n)" by (rule run_node_at_old)
  with wf2 show "deref (decls (stmts w2)) p = Some ?n"
    by (simp add: wf_node_at_deref)
next
  let ?w1 = "w\<lparr>store := h', stmts := sf'\<rparr>"
  let ?n = "\<lparr>eval_term = t\<rparr>"
  assume m: "make_evaluation t (store w, stmts w) = Inr (p, h', sf')"
  then show "evals sf' = evals (stmts w) @ [(p, ?n)]" "p = back_addr (evals sf')"
    by (auto simp: make_eq back_addr_def split: list.splits)
  from m have e: "exec (Make_evaluation t) w = Inr (p, ?w1)" by simp
  from assms e have wf1: "wf_world ?w1" by (rule exec_wf)
  from assms e have n: "node_at ?w1 p = Some (Eval ?n)"
    using exec_node_at_new by fastforce
  with wf1 show "deref (evals sf') p = Some ?n"
    using wf_node_at_deref(5) [of ?w1 p ?n] by simp
  fix cs ps w2
  assume r: "run cs ?w1 = Inr (ps, w2)"
  from wf1 r have wf2: "wf_world w2" by (rule run_wf)
  from wf1 r n have "node_at w2 p = Some (Eval ?n)" by (rule run_node_at_old)
  with wf2 show "deref (evals (stmts w2)) p = Some ?n"
    by (simp add: wf_node_at_deref)
qed

theorem statement_factories_witness:
  "wf_world (World [20, 30] tf_x sf_empty) \<and>
   make_declaration 10 10 (store (World [20, 30] tf_x sf_empty),
                           stmts (World [20, 30] tf_x sf_empty))
     = Inr (20, [30], sf_decl) \<and>
   run [Make_evaluation 10] ((World [20, 30] tf_x sf_empty)\<lparr>store := [30], stmts := sf_decl\<rparr>)
     = Inr ([30], World [] tf_x sf_decl_eval) \<and>
   decls sf_decl = decls (stmts (World [20, 30] tf_x sf_empty))
                     @ [(20, \<lparr>decl_variable = 10, decl_definition = 10\<rparr>)] \<and>
   20 = back_addr (decls sf_decl) \<and>
   deref (decls sf_decl) 20 = Some \<lparr>decl_variable = 10, decl_definition = 10\<rparr> \<and>
   deref (decls (stmts (World [] tf_x sf_decl_eval))) 20
     = Some \<lparr>decl_variable = 10, decl_definition = 10\<rparr> \<and>
   make_evaluation 10 (store (World [20, 30] tf_x sf_empty),
                       stmts (World [20, 30] tf_x sf_empty))
     = Inr (20, [30], sf_eval) \<and>
   run [Make_declaration 10 10]
       ((World [20, 30] tf_x sf_empty)\<lparr>store := [30], stmts := sf_eval\<rparr>)
     = Inr ([30], World [] tf_x sf_eval_decl) \<and>
   evals sf_eval = evals (stmts (World [20, 30] tf_x sf_empty)) @ [(20, \<lparr>eval_term = 10\<rparr>)] \<and>
   20 = back_addr (evals sf_eval) \<and>
   deref (evals sf_eval) 20 = Some \<lparr>eval_term = 10\<rparr> \<and>
   deref (evals (stmts (World [] tf_x sf_eval_decl))) 20 = Some \<lparr>eval_term = 10\<rparr>"
proof -
  let ?w0 = "World [20, 30] tf_x sf_empty"
  let ?w2 = "World [] tf_x sf_decl_eval"
  let ?v2 = "World [] tf_x sf_eval_decl"
  have wf: "wf_world ?w0"
    by (simp add: wf_world_def cells_def tag_def nullptr_def)
  have a: "make_declaration 10 10 (store ?w0, stmts ?w0) = Inr (20, [30], sf_decl)"
    by (simp add: make_eq)
  have b: "run [Make_evaluation 10] (?w0\<lparr>store := [30], stmts := sf_decl\<rparr>) = Inr ([30], ?w2)"
    by (simp add: make_eq)
  have c: "make_evaluation 10 (store ?w0, stmts ?w0) = Inr (20, [30], sf_eval)"
    by (simp add: make_eq)
  have d: "run [Make_declaration 10 10] (?w0\<lparr>store := [30], stmts := sf_eval\<rparr>)
      = Inr ([30], ?v2)"
    by (simp add: make_eq)
  note t = statement_factories [OF wf]
  note t1 = t [of 10 10 20 "[30]" sf_decl, THEN conjunct1, THEN mp, OF a]
  note t2 = t [of _ _ 20 "[30]" sf_eval 10, THEN conjunct2, THEN mp, OF c]
  from t1 have a': "decls sf_decl = decls (stmts ?w0)
        @ [(20, \<lparr>decl_variable = 10, decl_definition = 10\<rparr>)]"
    "20 = back_addr (decls sf_decl)"
    "deref (decls sf_decl) 20 = Some \<lparr>decl_variable = 10, decl_definition = 10\<rparr>"
    by blast+
  from t1 b have b': "deref (decls (stmts ?w2)) 20
      = Some \<lparr>decl_variable = 10, decl_definition = 10\<rparr>"
    by blast
  from t2 have c': "evals sf_eval = evals (stmts ?w0) @ [(20, \<lparr>eval_term = 10\<rparr>)]"
    "20 = back_addr (evals sf_eval)"
    "deref (evals sf_eval) 20 = Some \<lparr>eval_term = 10\<rparr>"
    by blast+
  from t2 d have d': "deref (evals (stmts ?v2)) 20 = Some \<lparr>eval_term = 10\<rparr>"
    by blast
  from wf a b c d a' b' c' d' show ?thesis by blast
qed

text \<open>
  C5. Creating a node of one kind leaves the storages of the other kinds of the same arena
  as they are, addresses and contents. In the application chain \<open>v1 = make_variable x\<close>,
  \<open>v2 = make_variable y\<close>, \<open>a = make_application v1 v2\<close>, the application holds \<open>v1\<close> and
  \<open>v2\<close>, and a following \<open>make_variable z\<close> changes nothing of it.
\<close>

theorem node_kinds_independent:
  "(make_variable symb (h, tf) = Inr (p, h', tf') \<longrightarrow>
      abst tf' = abst tf \<and> app tf' = app tf) \<and>
   (make_abstraction v t (h, tf) = Inr (p, h', tf') \<longrightarrow>
      var tf' = var tf \<and> app tf' = app tf) \<and>
   (make_application l r (h, tf) = Inr (p, h', tf') \<longrightarrow>
      var tf' = var tf \<and> abst tf' = abst tf) \<and>
   (make_declaration v d (h, sf) = Inr (p, h', sf') \<longrightarrow> evals sf' = evals sf) \<and>
   (make_evaluation t (h, sf) = Inr (p, h', sf') \<longrightarrow> decls sf' = decls sf) \<and>
   (make_variable x (h, tf) = Inr (v1, h1, tf1) \<and>
    make_variable y (h1, tf1) = Inr (v2, h2, tf2) \<and>
    make_application v1 v2 (h2, tf2) = Inr (a, h3, tf3) \<and>
    make_variable z (h3, tf3) = Inr (v3, h4, tf4) \<longrightarrow>
      app tf3 = app tf @ [(a, \<lparr>left = v1, right = v2\<rparr>)] \<and> app tf4 = app tf3 \<and>
      deref (app tf4) a = deref (app tf3) a)"
  by (auto simp: make_eq split: list.splits)

theorem node_kinds_independent_witness:
  "make_variable 1 ([10, 20, 30, 40], tf_empty) = Inr (10, [20, 30, 40], tf_x) \<and>
   make_variable 2 ([20, 30, 40], tf_x) = Inr (20, [30, 40], tf_x_y) \<and>
   make_application 10 20 ([30, 40], tf_x_y) = Inr (30, [40], tf_x_y_app) \<and>
   make_variable 3 ([40], tf_x_y_app) = Inr (40, [], tf_x_y_app_z) \<and>
   make_abstraction 10 10 ([20], tf_x) = Inr (20, [], tf_id) \<and>
   make_declaration 10 10 ([20], sf_empty) = Inr (20, [], sf_decl) \<and>
   make_evaluation 10 ([20], sf_empty) = Inr (20, [], sf_eval) \<and>
   abst tf_x = abst tf_empty \<and> app tf_x = app tf_empty \<and>
   var tf_id = var tf_x \<and> app tf_id = app tf_x \<and>
   var tf_x_y_app = var tf_x_y \<and> abst tf_x_y_app = abst tf_x_y \<and>
   evals sf_decl = evals sf_empty \<and>
   decls sf_eval = decls sf_empty \<and>
   app tf_x_y_app = app tf_empty @ [(30, \<lparr>left = 10, right = 20\<rparr>)] \<and>
   app tf_x_y_app_z = app tf_x_y_app \<and>
   deref (app tf_x_y_app_z) 30 = deref (app tf_x_y_app) 30"
proof -
  have a: "make_variable 1 ([10, 20, 30, 40], tf_empty) = Inr (10, [20, 30, 40], tf_x)"
    by (simp add: make_variable_eq)
  have b: "make_variable 2 ([20, 30, 40], tf_x) = Inr (20, [30, 40], tf_x_y)"
    by (simp add: make_variable_eq)
  have c: "make_application 10 20 ([30, 40], tf_x_y) = Inr (30, [40], tf_x_y_app)"
    by (simp add: make_application_eq)
  have d: "make_variable 3 ([40], tf_x_y_app) = Inr (40, [], tf_x_y_app_z)"
    by (simp add: make_variable_eq)
  have e: "make_abstraction 10 10 ([20], tf_x) = Inr (20, [], tf_id)"
    by (simp add: make_abstraction_eq)
  have f: "make_declaration 10 10 ([20], sf_empty) = Inr (20, [], sf_decl)"
    by (simp add: make_declaration_eq)
  have g: "make_evaluation 10 ([20], sf_empty) = Inr (20, [], sf_eval)"
    by (simp add: make_evaluation_eq)
  note t = node_kinds_independent
  note u = t [THEN conjunct2]
  note v = u [THEN conjunct2]
  note w = v [THEN conjunct2]
  note x = w [THEN conjunct2]
  have a': "abst tf_x = abst tf_empty \<and> app tf_x = app tf_empty"
    by (rule t [THEN conjunct1, THEN mp]) (rule a)
  have e': "var tf_id = var tf_x \<and> app tf_id = app tf_x"
    by (rule u [THEN conjunct1, THEN mp]) (rule e)
  have c': "var tf_x_y_app = var tf_x_y \<and> abst tf_x_y_app = abst tf_x_y"
    by (rule v [THEN conjunct1, THEN mp]) (rule c)
  have f': "evals sf_decl = evals sf_empty"
    by (rule w [THEN conjunct1, THEN mp]) (rule f)
  have g': "decls sf_eval = decls sf_empty"
    by (rule x [THEN conjunct1, THEN mp]) (rule g)
  have s: "app tf_x_y_app = app tf_empty @ [(30, \<lparr>left = 10, right = 20\<rparr>)] \<and>
           app tf_x_y_app_z = app tf_x_y_app \<and>
           deref (app tf_x_y_app_z) 30 = deref (app tf_x_y_app) 30"
    by (rule x [THEN conjunct2, THEN mp]) (rule conjI [OF a conjI [OF b conjI [OF c d]]])
  from a b c d e f g a' e' c' f' g' s show ?thesis by blast
qed

text \<open>
  C6. Both arenas are append-only. A factory call, and so any sequence of calls, keeps every
  cell of every storage where it was, with its address and its contents, and adds exactly
  one cell per call; a node that could be read at an address before can be read there
  afterwards, unchanged.
\<close>

theorem append_only:
  "(exec c w = Inr (p, w') \<longrightarrow>
      extends w w' \<and> length (cells w') = Suc (length (cells w)) \<and>
      (wf_world w \<longrightarrow> (\<forall>q n. node_at w q = Some n \<longrightarrow> node_at w' q = Some n))) \<and>
   (run cs w = Inr (ps, w'') \<longrightarrow>
      extends w w'' \<and> length (cells w'') = length (cells w) + length cs \<and>
      (wf_world w \<longrightarrow> (\<forall>q n. node_at w q = Some n \<longrightarrow> node_at w'' q = Some n)))"
proof (intro conjI impI allI)
  assume "exec c w = Inr (p, w')"
  then show "extends w w'" "length (cells w') = Suc (length (cells w))"
    by (simp_all add: exec_extends length_cells_exec)
next
  fix q n
  assume "exec c w = Inr (p, w')" "wf_world w" "node_at w q = Some n"
  then show "node_at w' q = Some n" by (simp add: exec_node_at_old)
next
  assume r: "run cs w = Inr (ps, w'')"
  then show "extends w w''" by (rule run_extends)
  from r show "length (cells w'') = length (cells w) + length cs"
  proof (induction cs arbitrary: w ps)
    case Nil
    then show ?case by simp
  next
    case (Cons c cs)
    from Cons.prems obtain p w1 ps1 where
      e: "exec c w = Inr (p, w1)" and r: "run cs w1 = Inr (ps1, w'')"
      by (auto split: sum.splits)
    from Cons.IH [OF r] length_cells_exec [OF e] show ?case by simp
  qed
next
  fix q n
  assume "run cs w = Inr (ps, w'')" "wf_world w" "node_at w q = Some n"
  then show "node_at w'' q = Some n" by (simp add: run_node_at_old)
qed

theorem append_only_witness:
  "exec (Make_abstraction 10 10) (World [20, 30] tf_x sf_empty)
     = Inr (20, World [30] tf_id sf_empty) \<and>
   run [Make_abstraction 10 10, Make_evaluation 20] (World [20, 30] tf_x sf_empty)
     = Inr ([20, 30], World [] tf_id sf_eval_id) \<and>
   wf_world (World [20, 30] tf_x sf_empty) \<and>
   node_at (World [20, 30] tf_x sf_empty) 10 = Some (Var \<lparr>symbol = 1\<rparr>) \<and>
   extends (World [20, 30] tf_x sf_empty) (World [30] tf_id sf_empty) \<and>
   length (cells (World [30] tf_id sf_empty))
     = Suc (length (cells (World [20, 30] tf_x sf_empty))) \<and>
   node_at (World [30] tf_id sf_empty) 10 = Some (Var \<lparr>symbol = 1\<rparr>) \<and>
   extends (World [20, 30] tf_x sf_empty) (World [] tf_id sf_eval_id) \<and>
   length (cells (World [] tf_id sf_eval_id))
     = length (cells (World [20, 30] tf_x sf_empty))
       + length [Make_abstraction 10 10, Make_evaluation 20] \<and>
   node_at (World [] tf_id sf_eval_id) 10 = Some (Var \<lparr>symbol = 1\<rparr>)"
proof -
  let ?w1 = "World [20, 30] tf_x sf_empty"
  let ?w2 = "World [30] tf_id sf_empty"
  let ?w3 = "World [] tf_id sf_eval_id"
  let ?cs = "[Make_abstraction 10 10, Make_evaluation 20]"
  have e: "exec (Make_abstraction 10 10) ?w1 = Inr (20, ?w2)"
    by (simp add: make_eq)
  have r: "run ?cs ?w1 = Inr ([20, 30], ?w3)"
    by (simp add: make_eq)
  have wf: "wf_world ?w1"
    by (simp add: wf_world_def cells_def tag_def nullptr_def)
  have n: "node_at ?w1 10 = Some (Var \<lparr>symbol = 1\<rparr>)"
    by (simp add: node_at_def deref_def cells_def tag_def)
  note t = append_only [of "Make_abstraction 10 10" ?w1 20 ?w2 ?cs "[20, 30]" ?w3]
  note t1 = t [THEN conjunct1, THEN mp, OF e]
  note t2 = t [THEN conjunct2, THEN mp, OF r]
  from t1 have a: "extends ?w1 ?w2" "length (cells ?w2) = Suc (length (cells ?w1))"
    by blast+
  from t1 wf n have b: "node_at ?w2 10 = Some (Var \<lparr>symbol = 1\<rparr>)" by blast
  from t2 have c: "extends ?w1 ?w3" "length (cells ?w3) = length (cells ?w1) + length ?cs"
    by blast+
  from t2 wf n have d: "node_at ?w3 10 = Some (Var \<lparr>symbol = 1\<rparr>)" by blast
  from e r wf n a b c d show ?thesis by blast
qed

text \<open>
  C7. A factory operation fails for one reason only, the exhaustion of the free store, and
  then with \<open>bad_alloc\<close>. While an address is left it succeeds, whatever its arguments are.
\<close>

theorem factories_fail_only_on_exhaustion:
  "(h \<noteq> [] \<longrightarrow>
      (\<exists>r. make_variable symb (h, tf) = Inr r) \<and>
      (\<exists>r. make_abstraction v t (h, tf) = Inr r) \<and>
      (\<exists>r. make_application l r' (h, tf) = Inr r) \<and>
      (\<exists>r. make_declaration v d (h, sf) = Inr r) \<and>
      (\<exists>r. make_evaluation t (h, sf) = Inr r)) \<and>
   (h = [] \<longrightarrow>
      make_variable symb (h, tf) = Inl bad_alloc \<and>
      make_abstraction v t (h, tf) = Inl bad_alloc \<and>
      make_application l r' (h, tf) = Inl bad_alloc \<and>
      make_declaration v d (h, sf) = Inl bad_alloc \<and>
      make_evaluation t (h, sf) = Inl bad_alloc)"
  by (simp add: make_eq split: list.splits)

theorem factories_fail_only_on_exhaustion_witness:
  "[10 :: nat] \<noteq> [] \<and>
   (\<exists>r. make_variable 0 ([10], tf_empty) = Inr r) \<and>
   (\<exists>r. make_abstraction 0 7 ([10], tf_empty) = Inr r) \<and>
   (\<exists>r. make_application 7 7 ([10], tf_empty) = Inr r) \<and>
   (\<exists>r. make_declaration 0 7 ([10], sf_empty) = Inr r) \<and>
   (\<exists>r. make_evaluation 7 ([10], sf_empty) = Inr r) \<and>
   make_variable 0 ([], tf_empty) = Inl bad_alloc \<and>
   make_abstraction 0 7 ([], tf_empty) = Inl bad_alloc \<and>
   make_application 7 7 ([], tf_empty) = Inl bad_alloc \<and>
   make_declaration 0 7 ([], sf_empty) = Inl bad_alloc \<and>
   make_evaluation 7 ([], sf_empty) = Inl bad_alloc"
proof -
  note t = factories_fail_only_on_exhaustion
  have n: "[10 :: nat] \<noteq> []" by simp
  have e: "([] :: nat list) = []" by simp
  note s = t [THEN conjunct1, THEN mp, OF n]
  note f = t [THEN conjunct2, THEN mp, OF e]
  from n show ?thesis
    by (intro conjI s [THEN conjunct1]
          s [THEN conjunct2, THEN conjunct1]
          s [THEN conjunct2, THEN conjunct2, THEN conjunct1]
          s [THEN conjunct2, THEN conjunct2, THEN conjunct2, THEN conjunct1]
          s [THEN conjunct2, THEN conjunct2, THEN conjunct2, THEN conjunct2]
          f [THEN conjunct1]
          f [THEN conjunct2, THEN conjunct1]
          f [THEN conjunct2, THEN conjunct2, THEN conjunct1]
          f [THEN conjunct2, THEN conjunct2, THEN conjunct2, THEN conjunct1]
          f [THEN conjunct2, THEN conjunct2, THEN conjunct2, THEN conjunct2])
qed

text \<open>
  C8, as stated: in every state reached by a sequence of factory calls, every node address
  stored inside a composite node was returned by a factory call made strictly before the
  call that created the composite node. The code does not make it so. The factories take
  any address: below, an abstraction is made from the address 5, which no call ever
  returns (say, of a Variable the caller constructed itself), and from the address 20,
  which a later call returns.
\<close>

theorem dependency_order_counterexample:
  "wf_world (init [10, 20]) \<and>
   run [Make_abstraction 5 20, Make_variable 1] (init [10, 20])
     = Inr ([10, 20], World [] tf_early sf_empty) \<and>
   node_at (World [] tf_early sf_empty) 10 = Some (Abs \<lparr>variable = 5, body = 20\<rparr>) \<and>
   \<not> dependency_ordered [10, 20] (World [] tf_early sf_empty)"
proof -
  let ?w2 = "World [] tf_early sf_empty"
  have "wf_world (init [10, 20])"
    by (simp add: wf_init nullptr_def)
  moreover have "run [Make_abstraction 5 20, Make_variable 1] (init [10, 20])
      = Inr ([10, 20], ?w2)"
    by (simp add: init_def make_eq)
  moreover have "node_at ?w2 10 = Some (Abs \<lparr>variable = 5, body = 20\<rparr>)"
    by (simp add: node_at_def deref_def cells_def tag_def)
  moreover have "\<not> dependency_ordered [10, 20] ?w2"
    by (simp add: dependency_ordered_def cells_def tag_def)
  ultimately show ?thesis by blast
qed

text \<open>
  C8, amended. In every state reached by a sequence of factory calls on arenas that start
  empty, a node holds exactly the addresses passed to the call that created it; and if
  every node address the builder passes was returned by an earlier call of the sequence,
  then every address stored inside a node was returned by a call made strictly before the
  call that created the node. The order is the builder's doing, the arenas do not check it.
\<close>

theorem dependency_order_of_disciplined_builder:
  assumes "wf_world (init h)" and "run cs (init h) = Inr (rets, w')"
  shows "(\<forall>i<length cs. node_at w' (rets ! i) = Some (node_of (cs ! i)) \<and>
                         refs (node_of (cs ! i)) = call_refs (cs ! i)) \<and>
         (disciplined cs rets \<longrightarrow> dependency_ordered rets w')"
proof (intro conjI allI impI)
  fix i
  assume i: "i < length cs"
  from run_node_at_nth [OF assms i] obtain wk where
    wf: "wf_world wk" and r2: "run (drop (Suc i) cs) wk = Inr (drop (Suc i) rets, w')" and
    n: "node_at wk (rets ! i) = Some (node_of (cs ! i))"
    by blast
  from wf r2 n show "node_at w' (rets ! i) = Some (node_of (cs ! i))"
    by (rule run_node_at_old)
  show "refs (node_of (cs ! i)) = call_refs (cs ! i)" by (rule refs_node_of)
next
  assume d: "disciplined cs rets"
  from assms have dist: "distinct rets" by (rule run_fresh)
  from assms(2) have len: "length rets = length cs" by (rule run_length)
  have cells: "set (cells w') = set (zip rets (map node_of cs))"
    using set_cells_run [OF assms(2)] by (simp add: init_def cells_def tag_def)
  have "q \<in> set (takeWhile (\<lambda>r. r \<noteq> p) rets)"
    if c: "(p, n) \<in> set (cells w')" and q: "q \<in> set (refs n)" for p n q
  proof -
    from c cells len obtain i where i: "i < length cs" and p: "p = rets ! i"
      and n: "n = node_of (cs ! i)"
      by (auto simp: in_set_zip)
    from d i have "set (call_refs (cs ! i)) \<subseteq> set (take i rets)"
      by (auto simp: disciplined_def list_all_iff)
    with q n have "q \<in> set (take i rets)" by (auto simp: refs_node_of)
    moreover have "takeWhile (\<lambda>r. r \<noteq> p) rets = take i rets"
    proof (rule takeWhile_eq_take_P_nth)
      fix j
      assume "j < i" "j < length rets"
      with dist i len show "rets ! j \<noteq> p" unfolding p by (simp add: nth_eq_iff_index_eq)
    next
      show "\<not> rets ! i \<noteq> p" by (simp add: p)
    qed
    ultimately show ?thesis by simp
  qed
  then show "dependency_ordered rets w'"
    by (auto simp: dependency_ordered_def list_all_iff)
qed

theorem dependency_order_of_disciplined_builder_witness:
  "wf_world (init [10, 20]) \<and>
   run [Make_variable 1, Make_abstraction 10 10] (init [10, 20])
     = Inr ([10, 20], World [] tf_id sf_empty) \<and>
   disciplined [Make_variable 1, Make_abstraction 10 10] [10, 20] \<and>
   (1 :: nat) < length [Make_variable 1, Make_abstraction 10 10] \<and>
   node_at (World [] tf_id sf_empty) ([10, 20] ! 1)
     = Some (node_of ([Make_variable 1, Make_abstraction 10 10] ! 1)) \<and>
   node_of ([Make_variable 1, Make_abstraction 10 10] ! 1)
     = Abs \<lparr>variable = 10, body = 10\<rparr> \<and>
   dependency_ordered [10, 20] (World [] tf_id sf_empty)"
proof -
  let ?w2 = "World [] tf_id sf_empty"
  let ?cs = "[Make_variable 1, Make_abstraction 10 10]"
  have wf: "wf_world (init [10, 20])"
    by (simp add: wf_init nullptr_def)
  have r: "run ?cs (init [10, 20]) = Inr ([10, 20], ?w2)"
    by (simp add: init_def make_eq)
  have d: "disciplined ?cs [10, 20]"
    by (simp add: disciplined_def)
  have k: "(1 :: nat) < length ?cs" by simp
  have m: "node_of (?cs ! 1) = Abs \<lparr>variable = 10, body = 10\<rparr>" by simp
  note t = dependency_order_of_disciplined_builder [OF wf r]
  from t k have n: "node_at ?w2 ([10, 20] ! 1) = Some (node_of (?cs ! 1))" by blast
  from t d have o: "dependency_ordered [10, 20] ?w2" by blast
  from wf r d k n m o show ?thesis by blast
qed

text \<open>
  C9. The arenas never deduplicate. The addresses a sequence of calls returns differ from
  one another and from the addresses of the nodes that were there before, whatever the
  arguments; after \<open>N\<close> calls the arenas hold \<open>N\<close> more nodes, and each storage holds the nodes
  of its kind in the order of their creation.
\<close>

theorem no_deduplication:
  assumes "wf_world w" and "run cs w = Inr (rets, w')"
  shows "distinct rets \<and> set rets \<inter> fst ` set (cells w) = {} \<and>
         length rets = length cs \<and>
         length (cells w') = length (cells w) + length cs \<and>
         map fst (var (terms w')) = map fst (var (terms w)) @ returned is_variable_call cs rets
             \<and>
         map fst (abst (terms w'))
           = map fst (abst (terms w)) @ returned is_abstraction_call cs rets \<and>
         map fst (app (terms w'))
           = map fst (app (terms w)) @ returned is_application_call cs rets \<and>
         map fst (decls (stmts w'))
           = map fst (decls (stmts w)) @ returned is_declaration_call cs rets \<and>
         map fst (evals (stmts w'))
           = map fst (evals (stmts w)) @ returned is_evaluation_call cs rets"
  using run_fresh(1,2) [OF assms] run_length [OF assms(2)] length_cells_run [OF assms(2)]
    run_kinds [OF assms(2)]
  by blast

theorem no_deduplication_witness:
  "wf_world (World [10, 20, 30] tf_empty sf_empty) \<and>
   run [Make_variable 1, Make_variable 1, Make_abstraction 10 20]
       (World [10, 20, 30] tf_empty sf_empty)
     = Inr ([10, 20, 30], World [] tf_x_x_abs sf_empty) \<and>
   distinct [10, 20, 30 :: nat] \<and>
   set [10, 20, 30] \<inter> fst ` set (cells (World [10, 20, 30] tf_empty sf_empty)) = {} \<and>
   length [10, 20, 30 :: nat]
     = length [Make_variable 1, Make_variable 1, Make_abstraction 10 20] \<and>
   length (cells (World [] tf_x_x_abs sf_empty))
     = length (cells (World [10, 20, 30] tf_empty sf_empty))
       + length [Make_variable 1, Make_variable 1, Make_abstraction 10 20] \<and>
   map fst (var (terms (World [] tf_x_x_abs sf_empty)))
     = map fst (var (terms (World [10, 20, 30] tf_empty sf_empty)))
       @ returned is_variable_call
           [Make_variable 1, Make_variable 1, Make_abstraction 10 20] [10, 20, 30] \<and>
   returned is_variable_call
       [Make_variable 1, Make_variable 1, Make_abstraction 10 20] [10, 20, 30] = [10, 20] \<and>
   map fst (abst (terms (World [] tf_x_x_abs sf_empty)))
     = map fst (abst (terms (World [10, 20, 30] tf_empty sf_empty)))
       @ returned is_abstraction_call
           [Make_variable 1, Make_variable 1, Make_abstraction 10 20] [10, 20, 30] \<and>
   returned is_abstraction_call
       [Make_variable 1, Make_variable 1, Make_abstraction 10 20] [10, 20, 30] = [30]"
proof -
  let ?w0 = "World [10, 20, 30] tf_empty sf_empty"
  let ?w3 = "World [] tf_x_x_abs sf_empty"
  let ?cs = "[Make_variable 1, Make_variable 1, Make_abstraction 10 20]"
  let ?rets = "[10, 20, 30 :: nat]"
  have wf: "wf_world ?w0"
    by (simp add: wf_world_def cells_def tag_def nullptr_def)
  have r: "run ?cs ?w0 = Inr (?rets, ?w3)"
    by (simp add: make_eq)
  have v: "returned is_variable_call ?cs ?rets = [10, 20]"
    and a: "returned is_abstraction_call ?cs ?rets = [30]"
    by (simp_all add: returned_def)
  note t = no_deduplication [OF wf r]
  from wf r v a t show ?thesis by blast
qed

text \<open>
  C10. The factories do not validate their arguments. With null for every argument each of
  the five operations succeeds as long as the free store is not exhausted, stores the null
  pointers as they are, and returns the address of the node it has appended; the node stays
  readable at that address through every later sequence of calls.
\<close>

theorem null_arguments_accepted:
  assumes "wf_world w" and "store w = a # h"
  shows
    "make_variable nullptr (store w, terms w)
       = Inr (a, h, (terms w)\<lparr>var := var (terms w) @ [(a, \<lparr>symbol =
           nullptr\<rparr>)]\<rparr>) \<and>
     make_abstraction nullptr nullptr (store w, terms w)
       = Inr (a, h, (terms w)\<lparr>abst := abst (terms w)
                                   @ [(a, \<lparr>variable = nullptr, body =
                                       nullptr\<rparr>)]\<rparr>) \<and>
     make_application nullptr nullptr (store w, terms w)
       = Inr (a, h, (terms w)\<lparr>app := app (terms w)
                                  @ [(a, \<lparr>left = nullptr, right =
                                      nullptr\<rparr>)]\<rparr>) \<and>
     make_declaration nullptr nullptr (store w, stmts w)
       = Inr (a, h, (stmts w)\<lparr>decls := decls (stmts w)
                 @ [(a, \<lparr>decl_variable = nullptr, decl_definition =
                     nullptr\<rparr>)]\<rparr>) \<and>
     make_evaluation nullptr (store w, stmts w)
       = Inr (a, h, (stmts w)\<lparr>evals := evals (stmts w) @ [(a, \<lparr>eval_term =
           nullptr\<rparr>)]\<rparr>) \<and>
     (\<forall>c \<in> set [Make_variable nullptr, Make_abstraction nullptr nullptr,
                 Make_application nullptr nullptr, Make_declaration nullptr nullptr,
                 Make_evaluation nullptr].
        \<exists>w1. exec c w = Inr (a, w1) \<and> node_at w1 a = Some (node_of c) \<and>
          (\<forall>cs ps w2. run cs w1 = Inr (ps, w2) \<longrightarrow> node_at w2 a = Some
              (node_of c)))"
proof -
  have stable: "\<exists>w1. exec c w = Inr (a, w1) \<and> node_at w1 a = Some (node_of c) \<and>
      (\<forall>cs ps w2. run cs w1 = Inr (ps, w2) \<longrightarrow> node_at w2 a = Some (node_of
          c))" for c
  proof -
    from assms(2) obtain w1 where e: "exec c w = Inr (a, w1)"
      by (cases c) (simp_all add: make_eq)
    from assms(1) e have n: "node_at w1 a = Some (node_of c)" by (rule exec_node_at_new)
    from assms(1) e have wf1: "wf_world w1" by (rule exec_wf)
    from wf1 n have "node_at w2 a = Some (node_of c)" if "run cs w1 = Inr (ps, w2)" for cs ps w2
      using that run_node_at_old by blast
    with e n show ?thesis by blast
  qed
  from assms(2) show ?thesis by (simp add: make_eq stable)
qed

theorem null_arguments_accepted_witness:
  "wf_world (World [10, 20] tf_empty sf_empty) \<and>
   store (World [10, 20] tf_empty sf_empty) = 10 # [20] \<and>
   make_variable nullptr ([10, 20], tf_empty)
     = Inr (10, [20], tf_empty\<lparr>var := var tf_empty @ [(10, \<lparr>symbol = nullptr\<rparr>)]\<rparr>) \<and>
   make_application nullptr nullptr ([10, 20], tf_empty)
     = Inr (10, [20],
            tf_empty\<lparr>app := app tf_empty @ [(10, \<lparr>left = nullptr, right = nullptr\<rparr>)]\<rparr>) \<and>
   exec (Make_application nullptr nullptr) (World [10, 20] tf_empty sf_empty)
     = Inr (10, World [20] tf_null_app sf_empty) \<and>
   run [Make_variable nullptr] (World [20] tf_null_app sf_empty)
     = Inr ([20], World [] tf_null_app_var sf_empty) \<and>
   node_at (World [20] tf_null_app sf_empty) 10
     = Some (node_of (Make_application nullptr nullptr)) \<and>
   node_of (Make_application nullptr nullptr) = App \<lparr>left = nullptr, right = nullptr\<rparr> \<and>
   node_at (World [] tf_null_app_var sf_empty) 10
     = Some (node_of (Make_application nullptr nullptr))"
proof -
  let ?w0 = "World [10, 20] tf_empty sf_empty"
  let ?w1 = "World [20] tf_null_app sf_empty"
  let ?w2 = "World [] tf_null_app_var sf_empty"
  let ?c = "Make_application nullptr nullptr"
  have wf: "wf_world ?w0"
    by (simp add: wf_world_def cells_def tag_def nullptr_def)
  have st: "store ?w0 = 10 # [20]" by simp
  have e: "exec ?c ?w0 = Inr (10, ?w1)"
    by (simp add: make_eq)
  have r: "run [Make_variable nullptr] ?w1 = Inr ([20], ?w2)"
    by (simp add: make_eq)
  have no: "node_of ?c = App \<lparr>left = nullptr, right = nullptr\<rparr>" by simp
  note t = null_arguments_accepted [OF wf st]
  from t have mv: "make_variable nullptr ([10, 20], tf_empty)
      = Inr (10, [20], tf_empty\<lparr>var := var tf_empty @ [(10, \<lparr>symbol = nullptr\<rparr>)]\<rparr>)"
    and ma: "make_application nullptr nullptr ([10, 20], tf_empty)
      = Inr (10, [20],
             tf_empty\<lparr>app := app tf_empty @ [(10, \<lparr>left = nullptr, right = nullptr\<rparr>)]\<rparr>)"
    by simp_all
  have m: "?c \<in> set [Make_variable nullptr, Make_abstraction nullptr nullptr,
      Make_application nullptr nullptr, Make_declaration nullptr nullptr,
      Make_evaluation nullptr]"
    by simp
  from t m obtain w1 where w1: "exec ?c ?w0 = Inr (10, w1)"
    "node_at w1 10 = Some (node_of ?c)"
    "\<And>cs ps w2. run cs w1 = Inr (ps, w2) \<Longrightarrow> node_at w2 10 = Some (node_of ?c)"
    by blast
  from w1(1) e have eq: "w1 = ?w1" by simp
  from w1(2) eq have n1: "node_at ?w1 10 = Some (node_of ?c)" by simp
  from w1(3) [of "[Make_variable nullptr]" "[20]" ?w2] r eq
  have n2: "node_at ?w2 10 = Some (node_of ?c)" by simp
  from wf st mv ma e r n1 no n2 show ?thesis by blast
qed

end
